theory Spec2Isabelle
  imports Complex_Main "HOL-Library.AList"
begin

section \<open>The drone scraper of scraping.py\<close>

text \<open>
  The development follows \<^verbatim>\<open>scraping.py\<close>: \<^verbatim>\<open>check_forbidden_coords\<close> finds the
  drones inside the no-fly zone, \<^verbatim>\<open>get_pilot_data\<close> resolves their pilots, merges them
  into the registry kept in \<^verbatim>\<open>pilot_information.json\<close>, sweeps out old entries and
  writes the file back, and \<^verbatim>\<open>update_web_page\<close> runs one such cycle.

  Conventions of the model.
  \<^item> A Python \<^verbatim>\<open>dict\<close> is an association list with distinct keys in insertion order:
    \<^verbatim>\<open>d[k] = v\<close> is \<open>AList.update\<close> (an existing key keeps its place, a new one goes to
    the end), \<^verbatim>\<open>del d[k]\<close> is \<open>AList.delete\<close>, \<^verbatim>\<open>k in d\<close> and \<^verbatim>\<open>d[k]\<close> are \<open>map_of\<close>.
  \<^item> A Python \<^verbatim>\<open>float\<close> is a real number; rounding is not modelled.
  \<^item> A naive \<^verbatim>\<open>datetime\<close> is its number of microseconds on the local time line.
  \<^item> Every call of \<^verbatim>\<open>datetime.datetime.now()\<close> takes the next reading of a clock: the
    clock is a function from the number of readings taken so far to the time read, and
    the functions that read it pass that number on.
  \<^item> An exception is a value \<open>Inl e\<close>; nothing in the source catches one except the
    \<^verbatim>\<open>JSONDecodeError\<close> handler of \<^verbatim>\<open>get_pilot_data\<close>.
  \<^item> The network and the XML and JSON libraries are inputs: what the two endpoints answer
    and what the parsers make of it is part of the \<open>world\<close> a cycle runs in.
\<close>

datatype error =
    ConnectionError
  | JSONDecodeError
  | KeyError
  | IndexError
  | ValueError
  | FileNotFoundError

type_synonym ('k, 'v) dict = "('k \<times> 'v) list"

subsection \<open>Time\<close>

type_synonym timestamp = int

type_synonym clock = "nat \<Rightarrow> timestamp"

text \<open>
  \<^verbatim>\<open>str(time)\<close> prints \<^verbatim>\<open>YYYY-MM-DD HH:MM:SS.ffffff\<close>, and leaves the fraction out when the
  microsecond field is zero. The two shapes of the text are the two constructors; the
  time printed is kept as the argument.
\<close>

datatype datetime_str =
    WithMicroseconds timestamp
  | WithoutMicroseconds timestamp

definition str_datetime :: "timestamp \<Rightarrow> datetime_str" where
  "str_datetime t =
     (if t mod 1000000 = 0 then WithoutMicroseconds t else WithMicroseconds t)"

text \<open>
  \<^verbatim>\<open>datetime.strptime(s, '%Y-%m-%d %H:%M:%S.%f')\<close>: the format asks for the fraction, a
  text without one does not match and raises \<^verbatim>\<open>ValueError\<close>.
\<close>

fun strptime :: "datetime_str \<Rightarrow> error + timestamp" where
  "strptime (WithMicroseconds t) = Inr t"
| "strptime (WithoutMicroseconds t) = Inl ValueError"

text \<open>
  A \<^verbatim>\<open>timedelta\<close> is normalised to days, seconds in \<open>[0, 86400)\<close> and microseconds in
  \<open>[0, 1000000)\<close>, the days carrying the sign; its attribute \<^verbatim>\<open>.seconds\<close> is the
  middle field. The argument is the difference in microseconds.
\<close>

definition timedelta_seconds :: "int \<Rightarrow> int" where
  "timedelta_seconds difference = (difference div 1000000) mod 86400"

subsection \<open>The drone snapshot\<close>

text \<open>
  A \<^verbatim>\<open><drone>\<close> element, as \<^verbatim>\<open>drone.find\<close>, the two \<^verbatim>\<open>split\<close>s and \<^verbatim>\<open>float\<close> see it. A
  coordinate tag is absent (\<^verbatim>\<open>str(None).split(">")[1]\<close> raises \<^verbatim>\<open>IndexError\<close>), holds a
  text \<^verbatim>\<open>float\<close> rejects (\<^verbatim>\<open>ValueError\<close>), or holds a number. The serial number is the
  text of its tag, if the tag is there.
\<close>

datatype coord = NoTag | NotFloat | Coord real

record drone =
  serialNumber :: "string option"
  positionX :: coord
  positionY :: coord

text \<open>Lines 51 to 62: both texts are cut out of their tags, then both are converted.\<close>

definition drone_coords :: "drone \<Rightarrow> error + (real \<times> real)" where
  "drone_coords d =
     (if positionX d = NoTag then Inl IndexError
      else if positionY d = NoTag then Inl IndexError
      else case positionX d of
             NotFloat \<Rightarrow> Inl ValueError
           | NoTag \<Rightarrow> Inl IndexError
           | Coord x_coord \<Rightarrow>
               (case positionY d of
                  NotFloat \<Rightarrow> Inl ValueError
                | NoTag \<Rightarrow> Inl IndexError
                | Coord y_coord \<Rightarrow> Inr (x_coord, y_coord)))"

definition distance_to_nest :: "real \<Rightarrow> real \<Rightarrow> real" where
  "distance_to_nest x_coord y_coord =
     sqrt ((250000 - x_coord)\<^sup>2 + (250000 - y_coord)\<^sup>2)"

text \<open>
  The loop of \<^verbatim>\<open>check_forbidden_coords\<close> over the drones, with the dictionary
  \<^verbatim>\<open>illegal_drone_ids\<close> built so far and the number \<open>n\<close> of clock readings taken. The
  clock is read once for every drone that is entered.
\<close>

fun check_drones ::
  "clock \<Rightarrow> nat \<Rightarrow> drone list \<Rightarrow> (string, datetime_str \<times> real) dict
     \<Rightarrow> error + ((string, datetime_str \<times> real) dict \<times> nat)" where
  "check_drones clk n [] illegal_drone_ids = Inr (illegal_drone_ids, n)"
| "check_drones clk n (d # drones) illegal_drone_ids =
     (case drone_coords d of
        Inl e \<Rightarrow> Inl e
      | Inr (x_coord, y_coord) \<Rightarrow>
          if 150000 < x_coord \<and> x_coord < 350000 then
            (let distance = distance_to_nest x_coord y_coord in
             if distance \<le> 100000 then
               (case serialNumber d of
                  None \<Rightarrow> Inl IndexError
                | Some ser_num \<Rightarrow>
                    check_drones clk (Suc n) drones
                      (AList.update ser_num (str_datetime (clk n), distance)
                         illegal_drone_ids))
             else check_drones clk n drones illegal_drone_ids)
          else check_drones clk n drones illegal_drone_ids)"

definition check_forbidden_coords ::
  "clock \<Rightarrow> nat \<Rightarrow> drone list
     \<Rightarrow> error + ((string, datetime_str \<times> real) dict \<times> nat)" where
  "check_forbidden_coords clk n data = check_drones clk n data []"

text \<open>
  The two tests of lines 68 and 78 on a drone whose coordinates parse: it is entered
  when both hold.
\<close>

definition in_nfz :: "drone \<Rightarrow> bool" where
  "in_nfz d =
     (case drone_coords d of
        Inl e \<Rightarrow> False
      | Inr (x_coord, y_coord) \<Rightarrow>
          150000 < x_coord \<and> x_coord < 350000 \<and> distance_to_nest x_coord y_coord \<le> 100000)"

text \<open>
  For the statements about detection, not a function of the source: the dictionary of
  violating drones with the times left out.
\<close>

definition without_time :: "(string, datetime_str \<times> real) dict \<Rightarrow> (string, real) dict" where
  "without_time illegal_drone_ids =
     map (\<lambda>(ser_num, (t, distance)). (ser_num, distance)) illegal_drone_ids"

subsection \<open>The registry of pilots\<close>

text \<open>
  The JSON object the pilot endpoint answers with, and the same object after
  \<^verbatim>\<open>get_pilot_data\<close> has added the keys \<^verbatim>\<open>timeOfViolation\<close> and \<^verbatim>\<open>closestDistance\<close>.
\<close>

record pilot =
  pilotId :: string
  firstName :: string
  lastName :: string
  phoneNumber :: string
  email :: string

record pilot_info = pilot +
  timeOfViolation :: datetime_str
  closestDistance :: real

definition json_object :: "pilot \<Rightarrow> datetime_str \<Rightarrow> real \<Rightarrow> pilot_info" where
  "json_object p t distance =
     \<lparr>pilotId = pilotId p, firstName = firstName p, lastName = lastName p,
      phoneNumber = phoneNumber p, email = email p,
      timeOfViolation = t, closestDistance = distance\<rparr>"

text \<open>
  Lines 114 to 134. The request, \<^verbatim>\<open>json.loads\<close> and the lookup of \<^verbatim>\<open>pilotId\<close> are one
  step that answers with a pilot or raises; no handler is around it. The entry is
  stored under the pilot's id, so a later drone of the same pilot replaces an earlier
  one.
\<close>

fun pilot_loop ::
  "(string \<Rightarrow> error + pilot) \<Rightarrow> (string, datetime_str \<times> real) dict
     \<Rightarrow> (string, pilot_info) dict \<Rightarrow> error + (string, pilot_info) dict" where
  "pilot_loop resolve [] pilot_data = Inr pilot_data"
| "pilot_loop resolve ((drone, (t, distance)) # drones_in_nfz) pilot_data =
     (case resolve drone of
        Inl e \<Rightarrow> Inl e
      | Inr p \<Rightarrow>
          pilot_loop resolve drones_in_nfz
            (AList.update (pilotId p) (json_object p t distance) pilot_data))"

text \<open>Lines 153 to 167: the body of the merge loop for one entry of \<^verbatim>\<open>pilot_data\<close>.\<close>

definition merge_pilot ::
  "string \<times> pilot_info \<Rightarrow> (string, pilot_info) dict \<Rightarrow> (string, pilot_info) dict" where
  "merge_pilot entry saved_pilot_info =
     (case map_of saved_pilot_info (fst entry) of
        Some old \<Rightarrow>
          (let seen = old\<lparr>timeOfViolation := timeOfViolation (snd entry)\<rparr> in
           AList.update (fst entry)
             (if closestDistance seen > closestDistance (snd entry)
              then seen\<lparr>closestDistance := closestDistance (snd entry)\<rparr>
              else seen)
             saved_pilot_info)
      | None \<Rightarrow> AList.update (fst entry) (snd entry) saved_pilot_info)"

fun merge_loop ::
  "(string, pilot_info) dict \<Rightarrow> (string, pilot_info) dict \<Rightarrow> (string, pilot_info) dict" where
  "merge_loop [] saved_pilot_info = saved_pilot_info"
| "merge_loop (entry # pilot_data) saved_pilot_info =
     merge_loop pilot_data (merge_pilot entry saved_pilot_info)"

text \<open>
  For the statements about the merge loop, not a function of the source: the violating
  drones of a call whose pilot lookup answers with the pilot \<open>pilot_id\<close>, in the order
  the call processes them.
\<close>

definition events_of ::
  "(string \<Rightarrow> error + pilot) \<Rightarrow> string \<Rightarrow> (string, datetime_str \<times> real) dict
     \<Rightarrow> (string, datetime_str \<times> real) dict" where
  "events_of resolve pilot_id drones_in_nfz =
     filter (\<lambda>(drone, v). case resolve drone of
                              Inr p \<Rightarrow> pilotId p = pilot_id
                            | Inl e \<Rightarrow> False)
       drones_in_nfz"

text \<open>
  For the statements about the merge loop, not a function of the source: the record the
  registry is to hold for a pilot after an entry \<open>new\<close> of \<^verbatim>\<open>pilot_data\<close> has been
  merged, given what it held before.
\<close>

definition merged_info :: "pilot_info option \<Rightarrow> pilot_info \<Rightarrow> pilot_info" where
  "merged_info before new =
     (case before of
        None \<Rightarrow> new
      | Some old \<Rightarrow>
          old\<lparr>timeOfViolation := timeOfViolation new,
              closestDistance := min (closestDistance old) (closestDistance new)\<rparr>)"

text \<open>
  Lines 179 to 198: the sweep that collects \<^verbatim>\<open>to_be_deleted\<close>. Each entry reads the
  clock, parses the stored time and compares the \<^verbatim>\<open>.seconds\<close> field of the difference
  with 600.
\<close>

fun sweep ::
  "clock \<Rightarrow> nat \<Rightarrow> (string, pilot_info) dict \<Rightarrow> string list
     \<Rightarrow> error + (string list \<times> nat)" where
  "sweep clk n [] to_be_deleted = Inr (to_be_deleted, n)"
| "sweep clk n ((pilot_id, info) # rest) to_be_deleted =
     (let time_now = clk n in
      case strptime (timeOfViolation info) of
        Inl e \<Rightarrow> Inl e
      | Inr time_of_violation \<Rightarrow>
          (let difference = time_now - time_of_violation in
           if timedelta_seconds difference > 600
           then sweep clk (Suc n) rest (to_be_deleted @ [pilot_id])
           else sweep clk (Suc n) rest to_be_deleted))"

text \<open>Lines 203 and 204.\<close>

fun delete_all ::
  "string list \<Rightarrow> (string, pilot_info) dict \<Rightarrow> (string, pilot_info) dict" where
  "delete_all [] saved_pilot_info = saved_pilot_info"
| "delete_all (key # to_be_deleted) saved_pilot_info =
     delete_all to_be_deleted (AList.delete key saved_pilot_info)"

text \<open>
  The sweep and the deletion together are the expiry of the registry: lines 177 to 204
  on a registry already loaded and merged.
\<close>

definition expire ::
  "clock \<Rightarrow> nat \<Rightarrow> (string, pilot_info) dict \<Rightarrow> error + (string, pilot_info) dict" where
  "expire clk n saved_pilot_info =
     (case sweep clk n saved_pilot_info [] of
        Inl e \<Rightarrow> Inl e
      | Inr (to_be_deleted, _) \<Rightarrow> Inr (delete_all to_be_deleted saved_pilot_info))"

text \<open>
  The file \<^verbatim>\<open>pilot_information.json\<close>: absent, present with a text \<^verbatim>\<open>json.load\<close> rejects
  with \<^verbatim>\<open>JSONDecodeError\<close>, or present with a registry as \<^verbatim>\<open>json.dump\<close> wrote it.
\<close>

datatype store =
    NoFile
  | Unparsable
  | Json "(string, pilot_info) dict"

text \<open>
  \<^verbatim>\<open>get_pilot_data\<close>. The result is the exception that ended the call, if any, and the
  file afterwards. The file is opened for writing only in the last statement, so a call
  that raises leaves it as it was. The \<^verbatim>\<open>open\<close> for reading stands outside the
  \<^verbatim>\<open>try\<close>; the merge loop stands inside it, after \<^verbatim>\<open>json.load\<close>, so the handler skips
  the merge and leaves \<^verbatim>\<open>saved_pilot_info\<close> empty.
\<close>

definition get_pilot_data ::
  "clock \<Rightarrow> nat \<Rightarrow> (string \<Rightarrow> error + pilot) \<Rightarrow> (string, datetime_str \<times> real) dict
     \<Rightarrow> store \<Rightarrow> error option \<times> store" where
  "get_pilot_data clk n resolve drones_in_nfz file =
     (case pilot_loop resolve drones_in_nfz [] of
        Inl e \<Rightarrow> (Some e, file)
      | Inr pilot_data \<Rightarrow>
          (case file of
             NoFile \<Rightarrow> (Some FileNotFoundError, file)
           | _ \<Rightarrow>
             (let saved_pilot_info =
                    (case file of
                       Json saved \<Rightarrow> merge_loop pilot_data saved
                     | _ \<Rightarrow> [])
              in case expire clk n saved_pilot_info of
                   Inl e \<Rightarrow> (Some e, file)
                 | Inr kept \<Rightarrow> (None, Json kept))))"

subsection \<open>One cycle\<close>

record world =
  drones_endpoint :: "error + drone list"
  pilots_endpoint :: "string \<Rightarrow> error + pilot"
  now :: clock

text \<open>
  \<^verbatim>\<open>get_drone_data\<close>: the request raises or the parser returns the drones of the answer.
\<close>

definition get_drone_data :: "world \<Rightarrow> error + drone list" where
  "get_drone_data w = drones_endpoint w"

text \<open>
  \<^verbatim>\<open>update_web_page\<close> up to the registry file. The last step, \<^verbatim>\<open>convert_info_into_html\<close>,
  reads the file just written and writes the HTML page; it does not touch the registry
  and is left out.
\<close>

definition update_web_page :: "world \<Rightarrow> store \<Rightarrow> error option \<times> store" where
  "update_web_page w file =
     (case get_drone_data w of
        Inl e \<Rightarrow> (Some e, file)
      | Inr drone_data \<Rightarrow>
          (case check_forbidden_coords (now w) 0 drone_data of
             Inl e \<Rightarrow> (Some e, file)
           | Inr (drones_in_nfz, n) \<Rightarrow>
               get_pilot_data (now w) n (pilots_endpoint w) drones_in_nfz file))"

text \<open>
  The invariant of the registry file: every distance it holds lies between 0 and the
  radius of the zone. A missing or unparsable file holds no entry.
\<close>

definition distances_in_zone :: "store \<Rightarrow> bool" where
  "distances_in_zone file =
     (case file of
        Json saved \<Rightarrow>
          list_all (\<lambda>(pilot_id, info). 0 \<le> closestDistance info \<and> closestDistance info \<le> 100000)
            saved
      | _ \<Rightarrow> True)"

subsection \<open>Example data\<close>

definition pilot_P1 :: pilot where
  "pilot_P1 =
     \<lparr>pilotId = ''P1'', firstName = ''Ada'', lastName = ''Aalto'',
      phoneNumber = ''+358401'', email = ''ada@example.com''\<rparr>"

definition pilot_P2 :: pilot where
  "pilot_P2 =
     \<lparr>pilotId = ''P2'', firstName = ''Bo'', lastName = ''Berg'',
      phoneNumber = ''+358402'', email = ''bo@example.com''\<rparr>"

text \<open>A pilot endpoint that knows the drones \<^verbatim>\<open>SN-1\<close> and \<^verbatim>\<open>SN-2\<close>.\<close>

definition two_pilots :: "string \<Rightarrow> error + pilot" where
  "two_pilots drone =
     (if drone = ''SN-1'' then Inr pilot_P1
      else if drone = ''SN-2'' then Inr pilot_P2
      else Inl ConnectionError)"

text \<open>A pilot endpoint that answers with pilot P1 for every drone.\<close>

definition one_pilot :: "string \<Rightarrow> error + pilot" where
  "one_pilot drone = Inr pilot_P1"

text \<open>A pilot endpoint that knows the drone \<^verbatim>\<open>SN-1\<close> only.\<close>

definition first_pilot_only :: "string \<Rightarrow> error + pilot" where
  "first_pilot_only drone =
     (if drone = ''SN-1'' then Inr pilot_P1 else Inl ConnectionError)"

definition drone_at :: "string \<Rightarrow> real \<Rightarrow> real \<Rightarrow> drone" where
  "drone_at ser_num x_coord y_coord =
     \<lparr>serialNumber = Some ser_num, positionX = Coord x_coord, positionY = Coord y_coord\<rparr>"

text \<open>
  Two drones over the nest at a clock that shows 7 microseconds: with both pilots
  known, and with the second pilot's lookup failing.
\<close>

definition world_two_drones :: world where
  "world_two_drones =
     \<lparr>drones_endpoint = Inr [drone_at ''SN-1'' 250000 250000, drone_at ''SN-2'' 250000 250000],
      pilots_endpoint = two_pilots, now = (\<lambda>_. 7)\<rparr>"

definition world_lost_pilot :: world where
  "world_lost_pilot =
     \<lparr>drones_endpoint = Inr [drone_at ''SN-1'' 250000 250000, drone_at ''SN-2'' 250000 250000],
      pilots_endpoint = first_pilot_only, now = (\<lambda>_. 7)\<rparr>"

text \<open>A pilot endpoint where the drones \<^verbatim>\<open>SN-1\<close> and \<^verbatim>\<open>SN-3\<close> belong to one pilot.\<close>

definition three_drones :: "string \<Rightarrow> error + pilot" where
  "three_drones drone =
     (if drone = ''SN-1'' then Inr pilot_P1
      else if drone = ''SN-2'' then Inr pilot_P2
      else if drone = ''SN-3'' then Inr pilot_P1
      else Inl ConnectionError)"

text \<open>
  Two clocks that move on by one microsecond with every reading. The second one is two
  readings behind: its reading number \<open>n + 2\<close> is the first one's reading number \<open>n\<close>.
\<close>

definition ticking :: clock where
  "ticking n = 1 + int n"

definition ticking_late :: clock where
  "ticking_late n = int n - 1"

section \<open>Properties\<close>

subsection \<open>Dictionaries\<close>

lemma in_set_update:
  "x \<in> set (AList.update k v al) \<Longrightarrow> x = (k, v) \<or> x \<in> set al"
  by (induction al) (auto split: if_splits)

lemma in_set_delete: "x \<in> set (AList.delete k al) \<Longrightarrow> x \<in> set al"
  by (simp add: AList.delete_eq)

subsection \<open>Expiry\<close>

text \<open>
  C1. The claim: \<open>expire\<close> removes exactly the entries whose elapsed time is more than 600
  seconds, however large the elapsed time is. The sweep compares the \<^verbatim>\<open>.seconds\<close> field
  of the difference, which starts again from zero every 86400 seconds: an entry last
  seen one day and five seconds ago (86405 seconds, read at a clock that shows
  86405000001 microseconds against a stored time of 1 microsecond) has \<^verbatim>\<open>.seconds = 5\<close>
  and is kept.
\<close>

theorem expire_keeps_entry_older_than_a_day:
  "(86405000001 - 1 :: int) > 600 * 1000000 \<and>
   expire (\<lambda>_. 86405000001) 0
     [(''P2'', json_object pilot_P2 (WithMicroseconds 1) 5000)]
   = Inr [(''P2'', json_object pilot_P2 (WithMicroseconds 1) 5000)]"
  by (simp add: expire_def timedelta_seconds_def json_object_def)

text \<open>
  What the sweep does decide by. Under a clock that shows \<open>time_now\<close> throughout, on a
  registry whose stored times all carry a fraction, the expiry keeps exactly the entries
  whose \<^verbatim>\<open>.seconds\<close> field is at most 600.
\<close>

lemma sweep_collects:
  "\<forall>(k, info) \<in> set saved. \<exists>t. timeOfViolation info = WithMicroseconds t \<Longrightarrow>
   \<forall>i. clk i = time_now \<Longrightarrow>
   sweep clk n saved acc =
     Inr (acc @ map fst (filter (\<lambda>(k, info).
            case timeOfViolation info of
              WithMicroseconds t \<Rightarrow> timedelta_seconds (time_now - t) > 600
            | WithoutMicroseconds t \<Rightarrow> False) saved), n + length saved)"
proof (induction saved arbitrary: n acc)
  case Nil
  then show ?case by simp
next
  case (Cons e saved)
  obtain k info where e: "e = (k, info)" by (cases e)
  with Cons.prems obtain t where t: "timeOfViolation info = WithMicroseconds t" by auto
  from Cons.prems have "\<forall>(k, info) \<in> set saved. \<exists>t. timeOfViolation info = WithMicroseconds t"
    by simp
  note IH = Cons.IH[OF this Cons.prems(2)]
  from Cons.prems(2) have now: "clk n = time_now" by simp
  show ?case using e t now by (simp add: IH Let_def)
qed

lemma delete_all_filter:
  "delete_all ks saved = filter (\<lambda>(k, info). k \<notin> set ks) saved"
proof (induction ks arbitrary: saved)
  case Nil
  then show ?case by simp
next
  case (Cons k ks)
  have "filter (\<lambda>(k', info). k' \<notin> set ks) (AList.delete k saved)
          = filter (\<lambda>(k', info). k' \<notin> set (k # ks)) saved"
    unfolding AList.delete_eq filter_filter by (rule filter_cong) auto
  with Cons.IH[of "AList.delete k saved"] show ?case by simp
qed

lemma filter_by_selected_keys:
  "distinct (map fst xs) \<Longrightarrow>
   filter (\<lambda>(k, v). k \<notin> set (map fst (filter P xs))) xs = filter (\<lambda>e. \<not> P e) xs"
proof -
  assume d: "distinct (map fst xs)"
  have "\<And>e. e \<in> set xs \<Longrightarrow> (fst e \<notin> set (map fst (filter P xs))) = (\<not> P e)"
  proof -
    fix e assume e: "e \<in> set xs"
    show "(fst e \<notin> set (map fst (filter P xs))) = (\<not> P e)"
    proof
      assume "fst e \<notin> set (map fst (filter P xs))"
      with e show "\<not> P e" by force
    next
      assume np: "\<not> P e"
      show "fst e \<notin> set (map fst (filter P xs))"
      proof
        assume "fst e \<in> set (map fst (filter P xs))"
        then obtain e' where e': "e' \<in> set xs" "P e'" "fst e' = fst e" by auto
        from d e e'(1,3) have "e' = e" by (meson eq_key_imp_eq_value prod_eqI distinct_map inj_onD)
        with np e'(2) show False by simp
      qed
    qed
  qed
  then show ?thesis by (auto intro!: filter_cong simp: case_prod_unfold)
qed

lemma expire_by_seconds_field:
  assumes "distinct (map fst saved)"
    and "\<forall>(k, info) \<in> set saved. \<exists>t. timeOfViolation info = WithMicroseconds t"
    and "\<forall>i. clk i = time_now"
  shows "expire clk n saved =
     Inr (filter (\<lambda>(k, info).
            case timeOfViolation info of
              WithMicroseconds t \<Rightarrow> \<not> timedelta_seconds (time_now - t) > 600
            | WithoutMicroseconds t \<Rightarrow> True) saved)"
proof -
  let ?P = "\<lambda>(k :: string, info :: pilot_info).
            case timeOfViolation info of
              WithMicroseconds t \<Rightarrow> timedelta_seconds (time_now - t) > 600
            | WithoutMicroseconds t \<Rightarrow> False"
  have "expire clk n saved = Inr (filter (\<lambda>e. \<not> ?P e) saved)"
    using sweep_collects[OF assms(2,3), of n "[]"] filter_by_selected_keys[OF assms(1), of ?P]
    by (simp add: expire_def delete_all_filter)
  moreover have "(\<lambda>e. \<not> ?P e) = (\<lambda>(k, info).
            case timeOfViolation info of
              WithMicroseconds t \<Rightarrow> \<not> timedelta_seconds (time_now - t) > 600
            | WithoutMicroseconds t \<Rightarrow> True)"
    by (auto simp: fun_eq_iff split: datetime_str.splits)
  ultimately show ?thesis by simp
qed

text \<open>
  For an elapsed time of less than a day the field exceeds 600 from 601 whole seconds
  on: an entry 601 seconds old goes, entries 600 and 600.5 seconds old stay.
\<close>

lemma timedelta_seconds_within_a_day:
  "0 \<le> difference \<Longrightarrow> difference < 86400 * 1000000 \<Longrightarrow>
   (timedelta_seconds difference > 600) = (difference \<ge> 601 * 1000000)"
  by (auto simp: timedelta_seconds_def)

lemma expire_around_600_seconds:
  "expire (\<lambda>_. 601000001) 0
     [(''P1'', json_object pilot_P1 (WithMicroseconds 1) 5000),
      (''P2'', json_object pilot_P2 (WithMicroseconds 500001) 5000)]
   = Inr [(''P2'', json_object pilot_P2 (WithMicroseconds 500001) 5000)] \<and>
   expire (\<lambda>_. 600000001) 0
     [(''P1'', json_object pilot_P1 (WithMicroseconds 1) 5000)]
   = Inr [(''P1'', json_object pilot_P1 (WithMicroseconds 1) 5000)]"
  by (simp add: expire_def timedelta_seconds_def json_object_def)

text \<open>
  A time read on a whole second is printed without a fraction, and the sweep of a
  registry that holds it raises.
\<close>

lemma expire_raises_on_whole_second:
  "str_datetime 3000000 = WithoutMicroseconds 3000000 \<and>
   expire (\<lambda>_. 4000001) 0 [(''P1'', json_object pilot_P1 (str_datetime 3000000) 5000)]
     = Inl ValueError"
  by (simp add: expire_def str_datetime_def json_object_def)

subsection \<open>Merging\<close>

lemma map_of_merge_pilot:
  "map_of (merge_pilot (k, new) saved)
     = (map_of saved)(k \<mapsto> merged_info (map_of saved k) new)"
  by (auto simp: merge_pilot_def merged_info_def update_conv' Let_def min_def
           split: option.splits)

lemma merge_loop_other:
  "k \<notin> fst ` set pd \<Longrightarrow> map_of (merge_loop pd saved) k = map_of saved k"
proof (induction pd arbitrary: saved)
  case Nil
  then show ?case by simp
next
  case (Cons e pd)
  obtain k' new where e: "e = (k', new)" by (cases e)
  with Cons show ?case by (simp add: map_of_merge_pilot)
qed

lemma merge_loop_entry:
  "distinct (map fst pd) \<Longrightarrow> (k, new) \<in> set pd \<Longrightarrow>
     map_of (merge_loop pd saved) k = Some (merged_info (map_of saved k) new)"
proof (induction pd arbitrary: saved)
  case Nil
  then show ?case by simp
next
  case (Cons e pd)
  obtain k' new' where e: "e = (k', new')" by (cases e)
  show ?case
  proof (cases "(k, new) = e")
    case True
    with Cons.prems e have "k \<notin> fst ` set pd" by auto
    with True e show ?thesis by (simp add: merge_loop_other map_of_merge_pilot)
  next
    case False
    with Cons.prems e have in_pd: "(k, new) \<in> set pd" and ne: "k \<noteq> k'" by force+
    from Cons.prems have "distinct (map fst pd)" by simp
    from Cons.IH[OF this in_pd] ne e show ?thesis by (simp add: map_of_merge_pilot)
  qed
qed

lemma pilot_loop_distinct:
  "pilot_loop resolve dnz acc = Inr pd \<Longrightarrow> distinct (map fst acc)
     \<Longrightarrow> distinct (map fst pd)"
proof (induction resolve dnz acc rule: pilot_loop.induct)
  case (1 resolve pilot_data)
  then show ?case by simp
next
  case (2 resolve drone t distance drones_in_nfz pilot_data)
  then show ?case by (auto split: sum.splits simp: distinct_update)
qed

lemma pilot_loop_origin:
  "pilot_loop resolve dnz acc = Inr pd \<Longrightarrow> (k, new) \<in> set pd \<Longrightarrow>
     (k, new) \<in> set acc \<or>
     (\<exists>drone t distance p. (drone, (t, distance)) \<in> set dnz \<and> resolve drone = Inr p
        \<and> k = pilotId p \<and> new = json_object p t distance)"
proof (induction resolve dnz acc rule: pilot_loop.induct)
  case (1 resolve pilot_data)
  then show ?case by simp
next
  case (2 resolve drone t distance drones_in_nfz pilot_data)
  then show ?case
    by (auto split: sum.splits dest!: in_set_update)
qed

text \<open>
  C2. Every entry of \<^verbatim>\<open>pilot_data\<close> comes from a violating drone and the pilot it resolved
  to, and the merge loop leaves under that pilot's id: the entry itself, carrying the
  drone's time and distance, when the registry did not have the pilot; otherwise the old
  record with the time overwritten by the drone's time, whatever the distances, and the
  distance set to the smaller of the old and the new one.
\<close>

theorem merge_inserts_or_updates:
  assumes "pilot_loop resolve drones_in_nfz [] = Inr pilot_data"
    and "(pilot_id, new) \<in> set pilot_data"
  shows "\<exists>drone t distance p.
           (drone, (t, distance)) \<in> set drones_in_nfz \<and> resolve drone = Inr p \<and>
           pilot_id = pilotId p \<and> new = json_object p t distance \<and>
           timeOfViolation new = t \<and> closestDistance new = distance \<and>
           map_of (merge_loop pilot_data saved) pilot_id =
             Some (case map_of saved pilot_id of
                     None \<Rightarrow> new
                   | Some old \<Rightarrow>
                       old\<lparr>timeOfViolation := t,
                           closestDistance := min (closestDistance old) distance\<rparr>)"
proof -
  from pilot_loop_origin[OF assms] obtain drone t distance p where
    origin: "(drone, (t, distance)) \<in> set drones_in_nfz" "resolve drone = Inr p"
      "pilot_id = pilotId p" "new = json_object p t distance"
    by auto
  have fields: "timeOfViolation new = t" "closestDistance new = distance"
    using origin(4) by (simp_all add: json_object_def)
  have "distinct (map fst pilot_data)"
    using pilot_loop_distinct[OF assms(1)] by simp
  from merge_loop_entry[OF this assms(2)]
  have "map_of (merge_loop pilot_data saved) pilot_id
          = Some (merged_info (map_of saved pilot_id) new)" .
  with fields have "map_of (merge_loop pilot_data saved) pilot_id =
      Some (case map_of saved pilot_id of
              None \<Rightarrow> new
            | Some old \<Rightarrow>
                old\<lparr>timeOfViolation := t,
                    closestDistance := min (closestDistance old) distance\<rparr>)"
    by (simp add: merged_info_def split: option.splits)
  with origin fields show ?thesis by blast
qed

text \<open>
  The scenario of the specification: pilot P1 is in the registry with distance 5000 and
  time 1; a drone of P1 is seen at distance 8000 and time 1000001. The distance stays,
  the time moves on.
\<close>

theorem merge_inserts_or_updates_witness:
  "pilot_loop two_pilots [(''SN-1'', (WithMicroseconds 1000001, 8000))] []
     = Inr [(''P1'', json_object pilot_P1 (WithMicroseconds 1000001) 8000)] \<and>
   map_of (merge_loop [(''P1'', json_object pilot_P1 (WithMicroseconds 1000001) 8000)]
             [(''P1'', json_object pilot_P1 (WithMicroseconds 1) 5000)]) ''P1''
     = Some (json_object pilot_P1 (WithMicroseconds 1000001) 5000)"
proof -
  let ?dnz = "[(''SN-1'', (WithMicroseconds 1000001, 8000 :: real))]"
  let ?new = "json_object pilot_P1 (WithMicroseconds 1000001) 8000"
  let ?saved = "[(''P1'', json_object pilot_P1 (WithMicroseconds 1) 5000)]"
  have h1: "pilot_loop two_pilots ?dnz [] = Inr [(''P1'', ?new)]"
    by (simp add: two_pilots_def pilot_P1_def)
  have h2: "(''P1'', ?new) \<in> set [(''P1'', ?new)]"
    by simp
  from merge_inserts_or_updates[OF h1 h2, of ?saved]
  have "map_of (merge_loop [(''P1'', ?new)] ?saved) ''P1''
          = Some (json_object pilot_P1 (WithMicroseconds 1000001) 5000)"
    by (auto simp: json_object_def)
  with h1 show ?thesis by simp
qed

subsection \<open>The cycle\<close>

text \<open>
  C7. A cycle whose snapshot request raises ends with that exception before anything
  else runs, and the registry file is the one it started with.
\<close>

theorem snapshot_failure_leaves_registry:
  "get_drone_data w = Inl e \<Longrightarrow> update_web_page w file = (Some e, file)"
  by (simp add: update_web_page_def)

theorem snapshot_failure_leaves_registry_witness:
  "get_drone_data
     \<lparr>drones_endpoint = Inl ConnectionError, pilots_endpoint = two_pilots,
      now = (\<lambda>_. 1)\<rparr> = Inl ConnectionError \<and>
   update_web_page
     \<lparr>drones_endpoint = Inl ConnectionError, pilots_endpoint = two_pilots,
      now = (\<lambda>_. 1)\<rparr>
     (Json [(''P1'', json_object pilot_P1 (WithMicroseconds 1) 5000)])
   = (Some ConnectionError, Json [(''P1'', json_object pilot_P1 (WithMicroseconds 1) 5000)])"
  using snapshot_failure_leaves_registry
    [of "\<lparr>drones_endpoint = Inl ConnectionError, pilots_endpoint = two_pilots,
          now = (\<lambda>_. 1)\<rparr>" ConnectionError
        "Json [(''P1'', json_object pilot_P1 (WithMicroseconds 1) 5000)]"]
  by (simp add: get_drone_data_def)

subsection \<open>Several drones of one pilot\<close>

lemma pilot_loop_same_pilot:
  "dnz \<noteq> [] \<Longrightarrow>
   \<forall>(drone, v) \<in> set dnz. \<exists>p. resolve drone = Inr p \<and> pilotId p = pid \<Longrightarrow>
   acc = [] \<or> (\<exists>x. acc = [(pid, x)]) \<Longrightarrow>
   pilot_loop resolve dnz acc = pilot_loop resolve [last dnz] []"
proof (induction dnz arbitrary: acc)
  case Nil
  then show ?case by simp
next
  case (Cons e rest)
  obtain drone t distance where e: "e = (drone, (t, distance))"
    by (cases e) auto
  from Cons.prems(2) e obtain p where p: "resolve drone = Inr p" "pilotId p = pid"
    by auto
  have acc': "AList.update pid (json_object p t distance) acc
                = [(pid, json_object p t distance)]"
    using Cons.prems(3) by auto
  show ?case
  proof (cases "rest = []")
    case True
    with e p acc' show ?thesis by simp
  next
    case False
    have "pilot_loop resolve rest [(pid, json_object p t distance)]
            = pilot_loop resolve [last rest] []"
      using Cons.IH[OF False, of "[(pid, json_object p t distance)]"] Cons.prems(2)
      by simp
    with e p acc' False show ?thesis by simp
  qed
qed

text \<open>
  C3, as stated, fails. Two drones of pilot P1 are in the zone, one at distance 5000 and
  time 1, one at distance 8000 and time 2, and the registry is empty. Taken in this
  order the registry ends with distance 8000 and time 2; taken in the other order it
  ends with distance 5000 and time 1.
\<close>

theorem same_pilot_order_counterexample:
  "get_pilot_data (\<lambda>_. 3) 0 one_pilot
      [(''SN-1'', (WithMicroseconds 1, 5000)), (''SN-2'', (WithMicroseconds 2, 8000))]
      (Json [])
    = (None, Json [(''P1'', json_object pilot_P1 (WithMicroseconds 2) 8000)]) \<and>
   get_pilot_data (\<lambda>_. 3) 0 one_pilot
      [(''SN-2'', (WithMicroseconds 2, 8000)), (''SN-1'', (WithMicroseconds 1, 5000))]
      (Json [])
    = (None, Json [(''P1'', json_object pilot_P1 (WithMicroseconds 1) 5000)]) \<and>
   json_object pilot_P1 (WithMicroseconds 2) 8000
    \<noteq> json_object pilot_P1 (WithMicroseconds 1) 5000"
  by (simp add: get_pilot_data_def one_pilot_def pilot_P1_def json_object_def expire_def
        merge_pilot_def timedelta_seconds_def)

text \<open>
  \<^verbatim>\<open>pilot_data\<close> is keyed by the pilot's id, so of the drones of a call that all resolve
  to one pilot only the last one processed reaches the merge: the call has the result of
  a call with that drone alone.
\<close>

lemma same_pilot_batch_as_last_drone:
  assumes "drones_in_nfz \<noteq> []"
    and "\<forall>(drone, v) \<in> set drones_in_nfz.
           \<exists>p. resolve drone = Inr p \<and> pilotId p = pilot_id"
  shows "get_pilot_data clk n resolve drones_in_nfz file
           = get_pilot_data clk n resolve [last drones_in_nfz] file"
  using pilot_loop_same_pilot[OF assms, of "[]"] by (simp add: get_pilot_data_def)

lemma pilot_loop_last_event:
  "pilot_loop resolve dnz acc = Inr pd \<Longrightarrow>
   map_of pd pid =
     (if events_of resolve pid dnz = [] then map_of acc pid
      else case last (events_of resolve pid dnz) of
             (drone, (t, d)) \<Rightarrow>
               (case resolve drone of
                  Inr p \<Rightarrow> Some (json_object p t d)
                | Inl e \<Rightarrow> None))"
proof (induction resolve dnz acc rule: pilot_loop.induct)
  case (1 resolve pilot_data)
  then show ?case by (simp add: events_of_def)
next
  case (2 resolve drone t distance drones_in_nfz pilot_data)
  from "2.prems" obtain p where p: "resolve drone = Inr p"
    and rec: "pilot_loop resolve drones_in_nfz
       (AList.update (pilotId p) (json_object p t distance) pilot_data) = Inr pd"
    by (auto split: sum.splits)
  note IH = "2.IH"[OF p rec]
  show ?case
  proof (cases "pilotId p = pid")
    case True
    with p have ev: "events_of resolve pid ((drone, (t, distance)) # drones_in_nfz)
        = (drone, (t, distance)) # events_of resolve pid drones_in_nfz"
      by (simp add: events_of_def)
    show ?thesis
    proof (cases "events_of resolve pid drones_in_nfz = []")
      case e: True
      with IH True p ev show ?thesis by (simp add: update_conv')
    next
      case e: False
      with IH ev show ?thesis by simp
    qed
  next
    case False
    with p have ev: "events_of resolve pid ((drone, (t, distance)) # drones_in_nfz)
        = events_of resolve pid drones_in_nfz"
      by (simp add: events_of_def)
    with IH False show ?thesis by (simp add: update_conv')
  qed
qed

text \<open>
  C3, amended. In a call whose pilot lookups all answer, take the violating drones that
  resolve to one pilot. Whatever else the call holds, the record the merge loop leaves
  for that pilot is the one the last of these drones alone gives: that drone's record
  when the registry did not have the pilot, otherwise the old record with that drone's
  time and the smaller of the old distance and that drone's distance. The earlier drones
  of the pilot leave no trace.
\<close>

theorem same_pilot_last_event_decides:
  assumes "pilot_loop resolve drones_in_nfz [] = Inr pilot_data"
    and "events_of resolve pilot_id drones_in_nfz \<noteq> []"
    and "last (events_of resolve pilot_id drones_in_nfz) = (drone, (t, distance))"
    and "resolve drone = Inr p"
  shows "map_of (merge_loop pilot_data saved) pilot_id =
           Some (case map_of saved pilot_id of
                   None \<Rightarrow> json_object p t distance
                 | Some old \<Rightarrow>
                     old\<lparr>timeOfViolation := t,
                         closestDistance := min (closestDistance old) distance\<rparr>)"
proof -
  from pilot_loop_last_event[OF assms(1), of pilot_id] assms(2,3,4)
  have "map_of pilot_data pilot_id = Some (json_object p t distance)"
    by simp
  then have "(pilot_id, json_object p t distance) \<in> set pilot_data"
    by (rule map_of_SomeD)
  moreover have "distinct (map fst pilot_data)"
    using pilot_loop_distinct[OF assms(1)] by simp
  ultimately have "map_of (merge_loop pilot_data saved) pilot_id
      = Some (merged_info (map_of saved pilot_id) (json_object p t distance))"
    by (rule merge_loop_entry[rotated])
  then show ?thesis
    by (simp add: merged_info_def json_object_def split: option.splits)
qed

text \<open>
  Pilot P1 is in the registry with distance 6000. Its drones are seen at 5000 and then
  at 8000, with a drone of P2 after them: P1 ends with the time of the second drone and
  distance 6000.
\<close>

theorem same_pilot_last_event_decides_witness:
  "pilot_loop three_drones
     [(''SN-1'', (WithMicroseconds 2, 5000)), (''SN-3'', (WithMicroseconds 3, 8000)),
      (''SN-2'', (WithMicroseconds 4, 100))] []
     = Inr [(''P1'', json_object pilot_P1 (WithMicroseconds 3) 8000),
            (''P2'', json_object pilot_P2 (WithMicroseconds 4) 100)] \<and>
   events_of three_drones ''P1''
     [(''SN-1'', (WithMicroseconds 2, 5000)), (''SN-3'', (WithMicroseconds 3, 8000)),
      (''SN-2'', (WithMicroseconds 4, 100))]
     = [(''SN-1'', (WithMicroseconds 2, 5000)), (''SN-3'', (WithMicroseconds 3, 8000))] \<and>
   three_drones ''SN-3'' = Inr pilot_P1 \<and>
   map_of (merge_loop [(''P1'', json_object pilot_P1 (WithMicroseconds 3) 8000),
                       (''P2'', json_object pilot_P2 (WithMicroseconds 4) 100)]
             [(''P1'', json_object pilot_P1 (WithMicroseconds 1) 6000)]) ''P1''
     = Some (json_object pilot_P1 (WithMicroseconds 3) 6000)"
proof -
  let ?dnz = "[(''SN-1'', (WithMicroseconds 2, 5000 :: real)),
               (''SN-3'', (WithMicroseconds 3, 8000)),
               (''SN-2'', (WithMicroseconds 4, 100))]"
  let ?pd = "[(''P1'', json_object pilot_P1 (WithMicroseconds 3) 8000),
              (''P2'', json_object pilot_P2 (WithMicroseconds 4) 100)]"
  have h1: "pilot_loop three_drones ?dnz [] = Inr ?pd"
    by (simp add: three_drones_def pilot_P1_def pilot_P2_def)
  have ev: "events_of three_drones ''P1'' ?dnz
      = [(''SN-1'', (WithMicroseconds 2, 5000)), (''SN-3'', (WithMicroseconds 3, 8000))]"
    by (simp add: events_of_def three_drones_def pilot_P1_def pilot_P2_def)
  have h2: "events_of three_drones ''P1'' ?dnz \<noteq> []"
    by (simp add: ev)
  have h3: "last (events_of three_drones ''P1'' ?dnz) = (''SN-3'', (WithMicroseconds 3, 8000))"
    by (simp add: ev)
  have h4: "three_drones ''SN-3'' = Inr pilot_P1"
    by (simp add: three_drones_def)
  from same_pilot_last_event_decides[OF h1 h2 h3 h4,
      of "[(''P1'', json_object pilot_P1 (WithMicroseconds 1) 6000)]"]
  have "map_of (merge_loop ?pd [(''P1'', json_object pilot_P1 (WithMicroseconds 1) 6000)]) ''P1''
      = Some (json_object pilot_P1 (WithMicroseconds 3) 6000)"
    by (simp add: json_object_def)
  with h1 ev h4 show ?thesis by simp
qed

subsection \<open>The zone\<close>

lemma sqrt_1e10: "sqrt 10000000000 = 100000"
  by (rule real_sqrt_unique) simp_all

text \<open>
  C4. The claim: a drone is entered exactly when its distance from the nest is at most
  100000, the boundary included. A drone at \<open>(150000, 250000)\<close> is at distance 100000,
  and the guard \<^verbatim>\<open>150000 < x_coord < 350000\<close> of line 68 turns it away before the distance
  is looked at: the result is empty.
\<close>

theorem boundary_drone_is_missed:
  "distance_to_nest 150000 250000 = 100000 \<and>
   check_forbidden_coords (\<lambda>_. 7) 0 [drone_at ''SN-1'' 150000 250000] = Inr ([], 0)"
  by (simp add: distance_to_nest_def sqrt_1e10 check_forbidden_coords_def
        drone_coords_def drone_at_def)

text \<open>
  A distance of at most 100000 puts \<open>x_coord\<close> between 150000 and 350000, so the guard
  turns away a drone of the zone only at the two points where the bounds are met.
\<close>

lemma distance_bounds_x:
  assumes "distance_to_nest x y \<le> 100000"
  shows "150000 \<le> x \<and> x \<le> 350000"
proof -
  have "\<bar>250000 - x\<bar> \<le> distance_to_nest x y"
    unfolding distance_to_nest_def by (rule real_sqrt_ge_abs1)
  with assms show ?thesis by linarith
qed

lemma guard_misses_two_points_only:
  "(distance_to_nest x y \<le> 100000 \<and> \<not> (150000 < x \<and> x < 350000))
     = ((x = 150000 \<or> x = 350000) \<and> y = 250000)"
proof
  assume a: "distance_to_nest x y \<le> 100000 \<and> \<not> (150000 < x \<and> x < 350000)"
  with distance_bounds_x[of x y] have x: "x = 150000 \<or> x = 350000" by linarith
  then have sq: "(250000 - x)\<^sup>2 = 100000\<^sup>2" by auto
  from a have "(250000 - x)\<^sup>2 + (250000 - y)\<^sup>2 \<le> 100000\<^sup>2"
    unfolding distance_to_nest_def by (intro sqrt_le_D) simp
  with sq have "(250000 - y)\<^sup>2 \<le> 0" by linarith
  then have "y = 250000" by simp
  with x show "(x = 150000 \<or> x = 350000) \<and> y = 250000" by simp
next
  assume "(x = 150000 \<or> x = 350000) \<and> y = 250000"
  then show "distance_to_nest x y \<le> 100000 \<and> \<not> (150000 < x \<and> x < 350000)"
    by (auto simp: distance_to_nest_def sqrt_1e10)
qed

subsection \<open>The registry file\<close>

text \<open>
  C9. When the text of the file does not parse, the pilots resolved in this cycle are
  dropped with it and the file is written back as the empty registry.
\<close>

theorem unparsable_file_drops_detections:
  "pilot_loop resolve drones_in_nfz [] = Inr pilot_data \<Longrightarrow>
   get_pilot_data clk n resolve drones_in_nfz Unparsable = (None, Json [])"
  by (simp add: get_pilot_data_def expire_def)

theorem unparsable_file_drops_detections_witness:
  "pilot_loop two_pilots [(''SN-1'', (WithMicroseconds 7, 0))] []
     = Inr [(''P1'', json_object pilot_P1 (WithMicroseconds 7) 0)] \<and>
   get_pilot_data (\<lambda>_. 7) 0 two_pilots [(''SN-1'', (WithMicroseconds 7, 0))] Unparsable
     = (None, Json [])"
proof -
  have h: "pilot_loop two_pilots [(''SN-1'', (WithMicroseconds 7, 0))] []
             = Inr [(''P1'', json_object pilot_P1 (WithMicroseconds 7) 0)]"
    by (simp add: two_pilots_def pilot_P1_def)
  from unparsable_file_drops_detections[OF h, of "\<lambda>_. 7" 0] h
  show ?thesis by simp
qed

lemma world_two_drones_detected:
  "check_forbidden_coords (\<lambda>_. 7) 0
     [drone_at ''SN-1'' 250000 250000, drone_at ''SN-2'' 250000 250000]
   = Inr ([(''SN-1'', (WithMicroseconds 7, 0)), (''SN-2'', (WithMicroseconds 7, 0))], 2)"
  by (simp add: distance_to_nest_def check_forbidden_coords_def drone_coords_def
        str_datetime_def drone_at_def)

text \<open>
  C5, as stated, fails. With the file missing the cycle ends with \<^verbatim>\<open>FileNotFoundError\<close>.
  With an unparsable file the cycle goes through, but not as it does from the empty
  registry: from the empty registry the two pilots of the cycle are written, from the
  unparsable file nothing is.
\<close>

theorem missing_or_corrupt_store_counterexample:
  "update_web_page world_two_drones NoFile = (Some FileNotFoundError, NoFile) \<and>
   update_web_page world_two_drones Unparsable = (None, Json []) \<and>
   update_web_page world_two_drones (Json [])
     = (None, Json [(''P1'', json_object pilot_P1 (WithMicroseconds 7) 0),
                    (''P2'', json_object pilot_P2 (WithMicroseconds 7) 0)])"
  by (simp add: update_web_page_def get_drone_data_def world_two_drones_def
        world_two_drones_detected get_pilot_data_def two_pilots_def pilot_P1_def
        pilot_P2_def json_object_def expire_def merge_pilot_def timedelta_seconds_def)

text \<open>
  C5, amended. In a cycle that gets as far as the file (the snapshot is fetched, every
  drone parses and every pilot resolves): an unparsable file does not end the cycle, the
  registry is taken to be empty, nothing is merged and the empty registry is written; a
  missing file ends the cycle with \<^verbatim>\<open>FileNotFoundError\<close> and nothing is written.
\<close>

theorem unparsable_store_is_emptied_missing_store_raises:
  assumes "get_drone_data w = Inr drone_data"
    and "check_forbidden_coords (now w) 0 drone_data = Inr (drones_in_nfz, n)"
    and "pilot_loop (pilots_endpoint w) drones_in_nfz [] = Inr pilot_data"
  shows "update_web_page w Unparsable = (None, Json []) \<and>
         update_web_page w NoFile = (Some FileNotFoundError, NoFile)"
  using assms by (simp add: update_web_page_def get_pilot_data_def expire_def)

theorem unparsable_store_is_emptied_missing_store_raises_witness:
  "get_drone_data world_two_drones
     = Inr [drone_at ''SN-1'' 250000 250000, drone_at ''SN-2'' 250000 250000] \<and>
   check_forbidden_coords (now world_two_drones) 0
     [drone_at ''SN-1'' 250000 250000, drone_at ''SN-2'' 250000 250000]
     = Inr ([(''SN-1'', (WithMicroseconds 7, 0)), (''SN-2'', (WithMicroseconds 7, 0))], 2) \<and>
   pilot_loop (pilots_endpoint world_two_drones)
     [(''SN-1'', (WithMicroseconds 7, 0)), (''SN-2'', (WithMicroseconds 7, 0))] []
     = Inr [(''P1'', json_object pilot_P1 (WithMicroseconds 7) 0),
            (''P2'', json_object pilot_P2 (WithMicroseconds 7) 0)] \<and>
   update_web_page world_two_drones Unparsable = (None, Json []) \<and>
   update_web_page world_two_drones NoFile = (Some FileNotFoundError, NoFile)"
proof -
  have h1: "get_drone_data world_two_drones
      = Inr [drone_at ''SN-1'' 250000 250000, drone_at ''SN-2'' 250000 250000]"
    by (simp add: get_drone_data_def world_two_drones_def)
  have h2: "check_forbidden_coords (now world_two_drones) 0
      [drone_at ''SN-1'' 250000 250000, drone_at ''SN-2'' 250000 250000]
      = Inr ([(''SN-1'', (WithMicroseconds 7, 0)), (''SN-2'', (WithMicroseconds 7, 0))], 2)"
    by (simp add: world_two_drones_def world_two_drones_detected)
  have h3: "pilot_loop (pilots_endpoint world_two_drones)
      [(''SN-1'', (WithMicroseconds 7, 0)), (''SN-2'', (WithMicroseconds 7, 0))] []
      = Inr [(''P1'', json_object pilot_P1 (WithMicroseconds 7) 0),
             (''P2'', json_object pilot_P2 (WithMicroseconds 7) 0)]"
    by (simp add: world_two_drones_def two_pilots_def pilot_P1_def pilot_P2_def)
  from unparsable_store_is_emptied_missing_store_raises[OF h1 h2 h3] h1 h2 h3
  show ?thesis by simp
qed

subsection \<open>A pilot that does not resolve\<close>

lemma pilot_loop_fails:
  "(drone, v) \<in> set dnz \<Longrightarrow> resolve drone = Inl e
     \<Longrightarrow> \<exists>e'. pilot_loop resolve dnz acc = Inl e'"
proof (induction resolve dnz acc rule: pilot_loop.induct)
  case (1 resolve pilot_data)
  then show ?case by simp
next
  case (2 resolve drone' t distance drones_in_nfz pilot_data)
  then show ?case by (auto split: sum.splits)
qed

text \<open>
  C6, as stated, fails. Two drones are over the nest, the pilot of the first resolves
  and the lookup of the second raises. The cycle ends with that exception and the
  registry file stays empty: the first drone's pilot is not merged.
\<close>

theorem pilot_failure_counterexample:
  "update_web_page world_lost_pilot (Json []) = (Some ConnectionError, Json [])"
  by (simp add: update_web_page_def get_drone_data_def world_lost_pilot_def
        world_two_drones_detected get_pilot_data_def first_pilot_only_def)

text \<open>
  C6, amended. When the lookup of the pilot of some violating drone raises, the whole
  cycle ends with an exception: nothing is merged, nothing expires and the registry file
  is the one the cycle started with.
\<close>

theorem pilot_failure_aborts_cycle:
  assumes "get_drone_data w = Inr drone_data"
    and "check_forbidden_coords (now w) 0 drone_data = Inr (drones_in_nfz, n)"
    and "(drone, v) \<in> set drones_in_nfz"
    and "pilots_endpoint w drone = Inl e"
  shows "\<exists>e'. update_web_page w file = (Some e', file)"
proof -
  from pilot_loop_fails[of drone v drones_in_nfz "pilots_endpoint w" e "[]", OF assms(3,4)]
  obtain e' where "pilot_loop (pilots_endpoint w) drones_in_nfz [] = Inl e'"
    by blast
  with assms(1,2) show ?thesis
    by (simp add: update_web_page_def get_pilot_data_def)
qed

theorem pilot_failure_aborts_cycle_witness:
  "get_drone_data world_lost_pilot
     = Inr [drone_at ''SN-1'' 250000 250000, drone_at ''SN-2'' 250000 250000] \<and>
   check_forbidden_coords (now world_lost_pilot) 0
     [drone_at ''SN-1'' 250000 250000, drone_at ''SN-2'' 250000 250000]
     = Inr ([(''SN-1'', (WithMicroseconds 7, 0)), (''SN-2'', (WithMicroseconds 7, 0))], 2) \<and>
   (''SN-2'', (WithMicroseconds 7, 0 :: real))
     \<in> set [(''SN-1'', (WithMicroseconds 7, 0)), (''SN-2'', (WithMicroseconds 7, 0))] \<and>
   pilots_endpoint world_lost_pilot ''SN-2'' = Inl ConnectionError \<and>
   (\<exists>e'. update_web_page world_lost_pilot
            (Json [(''P2'', json_object pilot_P2 (WithMicroseconds 1) 5000)])
          = (Some e', Json [(''P2'', json_object pilot_P2 (WithMicroseconds 1) 5000)]))"
proof -
  have h1: "get_drone_data world_lost_pilot
      = Inr [drone_at ''SN-1'' 250000 250000, drone_at ''SN-2'' 250000 250000]"
    by (simp add: get_drone_data_def world_lost_pilot_def)
  have h2: "check_forbidden_coords (now world_lost_pilot) 0
      [drone_at ''SN-1'' 250000 250000, drone_at ''SN-2'' 250000 250000]
      = Inr ([(''SN-1'', (WithMicroseconds 7, 0)), (''SN-2'', (WithMicroseconds 7, 0))], 2)"
    by (simp add: world_lost_pilot_def world_two_drones_detected)
  have h3: "(''SN-2'', (WithMicroseconds 7, 0 :: real))
      \<in> set [(''SN-1'', (WithMicroseconds 7, 0)), (''SN-2'', (WithMicroseconds 7, 0))]"
    by simp
  have h4: "pilots_endpoint world_lost_pilot ''SN-2'' = Inl ConnectionError"
    by (simp add: world_lost_pilot_def first_pilot_only_def)
  from pilot_failure_aborts_cycle[OF h1 h2 h3 h4] h1 h2 h3 h4
  show ?thesis by blast
qed

subsection \<open>Detection\<close>

lemma check_drones_entry:
  "check_drones clk n data acc = Inr (ids, n') \<Longrightarrow> (ser, (t, d)) \<in> set ids \<Longrightarrow>
   (ser, (t, d)) \<in> set acc \<or>
   (\<exists>i. t = str_datetime (clk i)) \<and>
   (\<exists>drone \<in> set data. serialNumber drone = Some ser \<and>
      (\<exists>x y. drone_coords drone = Inr (x, y) \<and> d = distance_to_nest x y \<and> d \<le> 100000))"
proof (induction data arbitrary: n acc)
  case Nil
  then show ?case by simp
next
  case (Cons a data)
  show ?case
  proof (cases "drone_coords a")
    case (Inl e)
    with Cons.prems show ?thesis by simp
  next
    case (Inr xy)
    obtain x y where xy: "xy = (x, y)" by (cases xy)
    show ?thesis
    proof (cases "150000 < x \<and> x < 350000 \<and> distance_to_nest x y \<le> 100000")
      case False
      with Cons.prems Inr xy
      have "check_drones clk n data acc = Inr (ids, n')"
        by (auto simp: Let_def split: if_splits)
      from Cons.IH[OF this Cons.prems(2)] show ?thesis by auto
    next
      case True
      with Cons.prems Inr xy obtain s where s: "serialNumber a = Some s"
        and rec: "check_drones clk (Suc n) data
             (AList.update s (str_datetime (clk n), distance_to_nest x y) acc) = Inr (ids, n')"
        by (auto simp: Let_def split: option.splits)
      from Cons.IH[OF rec Cons.prems(2)]
      show ?thesis
      proof
        assume "(ser, t, d) \<in> set (AList.update s (str_datetime (clk n), distance_to_nest x y) acc)"
        from in_set_update[OF this] True Inr xy s show ?thesis by auto
      next
        assume "(\<exists>i. t = str_datetime (clk i)) \<and>
          (\<exists>drone \<in> set data. serialNumber drone = Some ser \<and>
            (\<exists>x y. drone_coords drone = Inr (x, y) \<and> d = distance_to_nest x y \<and> d \<le> 100000))"
        then show ?thesis by auto
      qed
    qed
  qed
qed

lemma check_drones_distinct:
  "check_drones clk n data acc = Inr (ids, n') \<Longrightarrow> distinct (map fst acc)
     \<Longrightarrow> distinct (map fst ids)"
proof (induction data arbitrary: n acc)
  case Nil
  then show ?case by simp
next
  case (Cons a data)
  then show ?case
    by (auto simp: Let_def distinct_update split: sum.splits if_splits option.splits)
qed

lemma without_time_update:
  "without_time (AList.update k (t, d) al) = AList.update k d (without_time al)"
  by (induction al) (auto simp: without_time_def)

lemma check_drones_without_time:
  "without_time acc1 = without_time acc2 \<Longrightarrow>
   map_sum id (\<lambda>(ids, n'). without_time ids) (check_drones clk1 n1 data acc1)
     = map_sum id (\<lambda>(ids, n'). without_time ids) (check_drones clk2 n2 data acc2)"
proof (induction data arbitrary: n1 n2 acc1 acc2)
  case Nil
  then show ?case by simp
next
  case (Cons a data)
  show ?case
  proof (cases "in_nfz a")
    case False
    then show ?thesis
      using Cons.IH[OF Cons.prems, of n1 n2]
      by (auto simp: in_nfz_def Let_def split: sum.splits)
  next
    case True
    then obtain x y where xy: "drone_coords a = Inr (x, y)" "150000 < x" "x < 350000"
        "distance_to_nest x y \<le> 100000"
      by (auto simp: in_nfz_def split: sum.splits)
    show ?thesis
    proof (cases "serialNumber a")
      case None
      with xy show ?thesis by simp
    next
      case (Some s)
      have "without_time (AList.update s (str_datetime (clk1 n1), distance_to_nest x y) acc1)
          = without_time (AList.update s (str_datetime (clk2 n2), distance_to_nest x y) acc2)"
        using Cons.prems by (simp add: without_time_update)
      from Cons.IH[OF this, of "Suc n1" "Suc n2"] xy Some show ?thesis by simp
    qed
  qed
qed

lemma check_drones_same_readings:
  "\<forall>i. clk1 (n1 + i) = clk2 (n2 + i) \<Longrightarrow>
   map_sum id fst (check_drones clk1 n1 data acc)
     = map_sum id fst (check_drones clk2 n2 data acc)"
proof (induction data arbitrary: n1 n2 acc)
  case Nil
  then show ?case by simp
next
  case (Cons a data)
  show ?case
  proof (cases "in_nfz a")
    case False
    then show ?thesis
      using Cons.IH[OF Cons.prems, of acc]
      by (auto simp: in_nfz_def Let_def split: sum.splits)
  next
    case True
    then obtain x y where xy: "drone_coords a = Inr (x, y)" "150000 < x" "x < 350000"
        "distance_to_nest x y \<le> 100000"
      by (auto simp: in_nfz_def split: sum.splits)
    show ?thesis
    proof (cases "serialNumber a")
      case None
      with xy show ?thesis by simp
    next
      case (Some s)
      from Cons.prems have "clk1 (n1 + 0) = clk2 (n2 + 0)"
        by blast
      then have now: "clk1 n1 = clk2 n2"
        by simp
      have "\<forall>i. clk1 (Suc n1 + i) = clk2 (Suc n2 + i)"
      proof
        fix i
        from Cons.prems have "clk1 (n1 + Suc i) = clk2 (n2 + Suc i)"
          by blast
        then show "clk1 (Suc n1 + i) = clk2 (Suc n2 + i)"
          by simp
      qed
      from Cons.IH[OF this,
          of "AList.update s (str_datetime (clk2 n2), distance_to_nest x y) acc"]
        xy Some now
      show ?thesis by simp
    qed
  qed
qed

lemma check_drones_keys:
  "check_drones clk n data acc = Inr (ids, n') \<Longrightarrow>
   fst ` set ids = fst ` set acc \<union> {ser. \<exists>d \<in> set data. in_nfz d \<and> serialNumber d = Some ser}"
proof (induction data arbitrary: n acc)
  case Nil
  then show ?case by simp
next
  case (Cons a data)
  show ?case
  proof (cases "in_nfz a")
    case False
    with Cons.prems have "check_drones clk n data acc = Inr (ids, n')"
      by (auto simp: in_nfz_def Let_def split: sum.splits if_splits)
    from Cons.IH[OF this] False show ?thesis by auto
  next
    case True
    then obtain x y where xy: "drone_coords a = Inr (x, y)" "150000 < x" "x < 350000"
        "distance_to_nest x y \<le> 100000"
      by (auto simp: in_nfz_def split: sum.splits)
    with Cons.prems obtain s where s: "serialNumber a = Some s"
      and rec: "check_drones clk (Suc n) data
           (AList.update s (str_datetime (clk n), distance_to_nest x y) acc) = Inr (ids, n')"
      by (auto simp: Let_def split: option.splits)
    from Cons.IH[OF rec] True s show ?thesis
      by (auto simp: dom_update)
  qed
qed

lemma check_drones_readings:
  "check_drones clk n data acc = Inr (ids, n') \<Longrightarrow> n' = n + length (filter in_nfz data)"
proof (induction data arbitrary: n acc)
  case Nil
  then show ?case by simp
next
  case (Cons a data)
  show ?case
  proof (cases "in_nfz a")
    case False
    with Cons.prems have "check_drones clk n data acc = Inr (ids, n')"
      by (auto simp: in_nfz_def Let_def split: sum.splits if_splits)
    from Cons.IH[OF this] False show ?thesis by simp
  next
    case True
    then obtain x y where xy: "drone_coords a = Inr (x, y)" "150000 < x" "x < 350000"
        "distance_to_nest x y \<le> 100000"
      by (auto simp: in_nfz_def split: sum.splits)
    with Cons.prems obtain s where s: "serialNumber a = Some s"
      and rec: "check_drones clk (Suc n) data
           (AList.update s (str_datetime (clk n), distance_to_nest x y) acc) = Inr (ids, n')"
      by (auto simp: Let_def split: option.splits)
    from Cons.IH[OF rec] True show ?thesis by simp
  qed
qed

lemma check_drones_stamp_at:
  "check_drones clk n data acc = Inr (ids, n') \<Longrightarrow> (ser, (t, d)) \<in> set ids \<Longrightarrow>
   (ser, (t, d)) \<in> set acc \<or>
   (\<exists>k < length (filter in_nfz data).
      serialNumber (filter in_nfz data ! k) = Some ser \<and>
      t = str_datetime (clk (n + k)) \<and>
      (\<exists>x y. drone_coords (filter in_nfz data ! k) = Inr (x, y) \<and> d = distance_to_nest x y))"
proof (induction data arbitrary: n acc)
  case Nil
  then show ?case by simp
next
  case (Cons a data)
  show ?case
  proof (cases "in_nfz a")
    case False
    with Cons.prems have "check_drones clk n data acc = Inr (ids, n')"
      by (auto simp: in_nfz_def Let_def split: sum.splits if_splits)
    from Cons.IH[OF this Cons.prems(2)] False show ?thesis by simp
  next
    case True
    then obtain x y where xy: "drone_coords a = Inr (x, y)" "150000 < x" "x < 350000"
        "distance_to_nest x y \<le> 100000"
      by (auto simp: in_nfz_def split: sum.splits)
    with Cons.prems obtain s where s: "serialNumber a = Some s"
      and rec: "check_drones clk (Suc n) data
           (AList.update s (str_datetime (clk n), distance_to_nest x y) acc) = Inr (ids, n')"
      by (auto simp: Let_def split: option.splits)
    let ?F = "filter in_nfz data"
    from True have F: "filter in_nfz (a # data) = a # ?F" by simp
    from Cons.IH[OF rec Cons.prems(2)]
    show ?thesis
    proof
      assume "(ser, t, d) \<in> set (AList.update s (str_datetime (clk n), distance_to_nest x y) acc)"
      from in_set_update[OF this] show ?thesis
      proof
        assume "(ser, t, d) = (s, str_datetime (clk n), distance_to_nest x y)"
        with xy s have "0 < length (a # ?F) \<and> serialNumber ((a # ?F) ! 0) = Some ser \<and>
            t = str_datetime (clk (n + 0)) \<and>
            (\<exists>x y. drone_coords ((a # ?F) ! 0) = Inr (x, y) \<and> d = distance_to_nest x y)"
          by simp
        then show ?thesis unfolding F by blast
      next
        assume "(ser, t, d) \<in> set acc"
        then show ?thesis by simp
      qed
    next
      assume "\<exists>k < length ?F. serialNumber (?F ! k) = Some ser \<and>
          t = str_datetime (clk (Suc n + k)) \<and>
          (\<exists>x y. drone_coords (?F ! k) = Inr (x, y) \<and> d = distance_to_nest x y)"
      then obtain k where k: "k < length ?F" "serialNumber (?F ! k) = Some ser"
          "t = str_datetime (clk (Suc n + k))"
          "\<exists>x y. drone_coords (?F ! k) = Inr (x, y) \<and> d = distance_to_nest x y"
        by blast
      then have "Suc k < length (a # ?F) \<and> serialNumber ((a # ?F) ! Suc k) = Some ser \<and>
            t = str_datetime (clk (n + Suc k)) \<and>
            (\<exists>x y. drone_coords ((a # ?F) ! Suc k) = Inr (x, y) \<and> d = distance_to_nest x y)"
        by simp
      then show ?thesis unfolding F by blast
    qed
  qed
qed

text \<open>
  C8, as stated, fails. \<^verbatim>\<open>check_forbidden_coords\<close> takes no time: it reads the clock at
  every drone it enters. Under a clock that moves on, a run on two drones over the nest
  stamps them with two different times, and a second run on the same snapshot, two
  readings later, returns other times than the first.
\<close>

theorem detect_two_runs_counterexample:
  "check_forbidden_coords ticking 0
     [drone_at ''SN-1'' 250000 250000, drone_at ''SN-2'' 250000 250000]
   = Inr ([(''SN-1'', (WithMicroseconds 1, 0)), (''SN-2'', (WithMicroseconds 2, 0))], 2) \<and>
   check_forbidden_coords ticking 2
     [drone_at ''SN-1'' 250000 250000, drone_at ''SN-2'' 250000 250000]
   = Inr ([(''SN-1'', (WithMicroseconds 3, 0)), (''SN-2'', (WithMicroseconds 4, 0))], 4) \<and>
   check_forbidden_coords ticking 0
     [drone_at ''SN-1'' 250000 250000, drone_at ''SN-2'' 250000 250000]
   \<noteq> check_forbidden_coords ticking 2
     [drone_at ''SN-1'' 250000 250000, drone_at ''SN-2'' 250000 250000]"
  by (simp add: distance_to_nest_def check_forbidden_coords_def drone_coords_def
        str_datetime_def drone_at_def ticking_def)

text \<open>
  C8, amended. Which drones are entered, and with which distances, is decided by the
  snapshot alone: two runs on one snapshot agree on it (or raise the same exception)
  whatever their clocks show. The times are the readings of the clock: two runs whose
  clocks agree reading by reading from where each run starts return the same dictionary.
  A run that returns has taken one reading for every drone of the snapshot that passes
  the two tests and has one entry for a serial number; the serial numbers are those of
  the drones that pass; every entry holds, for one such drone with that serial number,
  its distance, which is at most 100000, and, printed by \<^verbatim>\<open>str\<close>, the reading taken at
  it: the reading number \<open>k\<close> of the run for the drone number \<open>k\<close> among those that pass.
\<close>

theorem detect_by_snapshot_and_readings:
  "map_sum id (\<lambda>(ids, n'). without_time ids) (check_forbidden_coords clk1 n1 data)
     = map_sum id (\<lambda>(ids, n'). without_time ids) (check_forbidden_coords clk2 n2 data) \<and>
   ((\<forall>i. clk1 (n1 + i) = clk2 (n2 + i)) \<longrightarrow>
      map_sum id fst (check_forbidden_coords clk1 n1 data)
        = map_sum id fst (check_forbidden_coords clk2 n2 data)) \<and>
   (\<forall>ids n'. check_forbidden_coords clk1 n1 data = Inr (ids, n') \<longrightarrow>
      n' = n1 + length (filter in_nfz data) \<and>
      distinct (map fst ids) \<and>
      fst ` set ids = {ser. \<exists>drone \<in> set data. in_nfz drone \<and> serialNumber drone = Some ser} \<and>
      (\<forall>ser t d. (ser, (t, d)) \<in> set ids \<longrightarrow>
         (\<exists>k < length (filter in_nfz data).
            serialNumber (filter in_nfz data ! k) = Some ser \<and>
            t = str_datetime (clk1 (n1 + k)) \<and>
            (\<exists>x y. drone_coords (filter in_nfz data ! k) = Inr (x, y) \<and>
               d = distance_to_nest x y \<and> d \<le> 100000))))"
proof (intro conjI allI impI)
  show "map_sum id (\<lambda>(ids, n'). without_time ids) (check_forbidden_coords clk1 n1 data)
     = map_sum id (\<lambda>(ids, n'). without_time ids) (check_forbidden_coords clk2 n2 data)"
    unfolding check_forbidden_coords_def by (rule check_drones_without_time) simp
next
  assume "\<forall>i. clk1 (n1 + i) = clk2 (n2 + i)"
  then show "map_sum id fst (check_forbidden_coords clk1 n1 data)
        = map_sum id fst (check_forbidden_coords clk2 n2 data)"
    unfolding check_forbidden_coords_def by (rule check_drones_same_readings)
next
  fix ids n'
  assume "check_forbidden_coords clk1 n1 data = Inr (ids, n')"
  then have r: "check_drones clk1 n1 data [] = Inr (ids, n')"
    by (simp add: check_forbidden_coords_def)
  from check_drones_readings[OF r] show "n' = n1 + length (filter in_nfz data)" .
  from check_drones_distinct[OF r] show "distinct (map fst ids)" by simp
  from check_drones_keys[OF r]
  show "fst ` set ids = {ser. \<exists>drone \<in> set data. in_nfz drone \<and> serialNumber drone = Some ser}"
    by simp
  fix ser t d
  assume "(ser, (t, d)) \<in> set ids"
  from check_drones_stamp_at[OF r this]
  obtain k where k: "k < length (filter in_nfz data)"
      "serialNumber (filter in_nfz data ! k) = Some ser"
      "t = str_datetime (clk1 (n1 + k))"
      "\<exists>x y. drone_coords (filter in_nfz data ! k) = Inr (x, y) \<and> d = distance_to_nest x y"
    by auto
  from k(1) have "filter in_nfz data ! k \<in> set (filter in_nfz data)"
    by (rule nth_mem)
  then have "in_nfz (filter in_nfz data ! k)"
    by simp
  with k(4) have "\<exists>x y. drone_coords (filter in_nfz data ! k) = Inr (x, y) \<and>
      d = distance_to_nest x y \<and> d \<le> 100000"
    by (auto simp: in_nfz_def)
  with k(1,2,3)
  show "\<exists>k < length (filter in_nfz data).
            serialNumber (filter in_nfz data ! k) = Some ser \<and>
            t = str_datetime (clk1 (n1 + k)) \<and>
            (\<exists>x y. drone_coords (filter in_nfz data ! k) = Inr (x, y) \<and>
               d = distance_to_nest x y \<and> d \<le> 100000)"
    by blast
qed

theorem detect_by_snapshot_and_readings_witness:
  "ticking (0 + 0) = ticking_late (2 + 0) \<and>
   map_sum id fst
     (check_forbidden_coords ticking 0
        [drone_at ''SN-1'' 250000 250000, drone_at ''SN-2'' 250000 250000])
   = map_sum id fst
     (check_forbidden_coords ticking_late 2
        [drone_at ''SN-1'' 250000 250000, drone_at ''SN-2'' 250000 250000]) \<and>
   check_forbidden_coords ticking 0
     [drone_at ''SN-1'' 250000 250000, drone_at ''SN-2'' 250000 250000]
   = Inr ([(''SN-1'', (WithMicroseconds 1, 0)), (''SN-2'', (WithMicroseconds 2, 0))], 2)"
proof -
  let ?data = "[drone_at ''SN-1'' 250000 250000, drone_at ''SN-2'' 250000 250000]"
  have h: "\<forall>i. ticking (0 + i) = ticking_late (2 + i)"
    by (simp add: ticking_def ticking_late_def)
  from detect_by_snapshot_and_readings[of ticking 0 ?data ticking_late 2] h
  have "map_sum id fst (check_forbidden_coords ticking 0 ?data)
      = map_sum id fst (check_forbidden_coords ticking_late 2 ?data)"
    by blast
  moreover have "check_forbidden_coords ticking 0 ?data
      = Inr ([(''SN-1'', (WithMicroseconds 1, 0)), (''SN-2'', (WithMicroseconds 2, 0))], 2)"
    by (simp add: distance_to_nest_def check_forbidden_coords_def drone_coords_def
          str_datetime_def drone_at_def ticking_def)
  moreover have "ticking (0 + 0) = ticking_late (2 + 0)"
    by (simp add: ticking_def ticking_late_def)
  ultimately show ?thesis by simp
qed

subsection \<open>The invariant of the registry\<close>

lemma distance_to_nest_nonneg: "0 \<le> distance_to_nest x y"
  by (simp add: distance_to_nest_def)

lemma pilot_loop_distances:
  "pilot_loop resolve dnz acc = Inr pd \<Longrightarrow>
   \<forall>(drone, (t, d)) \<in> set dnz. 0 \<le> d \<and> d \<le> 100000 \<Longrightarrow>
   \<forall>(k, info) \<in> set acc. 0 \<le> closestDistance info \<and> closestDistance info \<le> 100000 \<Longrightarrow>
   \<forall>(k, info) \<in> set pd. 0 \<le> closestDistance info \<and> closestDistance info \<le> 100000"
proof (induction resolve dnz acc rule: pilot_loop.induct)
  case (1 resolve pilot_data)
  then show ?case by simp
next
  case (2 resolve drone t distance drones_in_nfz pilot_data)
  from "2.prems"(1) obtain p where p: "resolve drone = Inr p"
    and rec: "pilot_loop resolve drones_in_nfz
       (AList.update (pilotId p) (json_object p t distance) pilot_data) = Inr pd"
    by (auto split: sum.splits)
  have "\<forall>(k, info) \<in> set (AList.update (pilotId p) (json_object p t distance) pilot_data).
          0 \<le> closestDistance info \<and> closestDistance info \<le> 100000"
    using "2.prems"(2,3) by (auto dest!: in_set_update simp: json_object_def)
  with "2.IH"[OF p rec] "2.prems"(2) show ?case by simp
qed

lemma merge_pilot_distances:
  assumes "0 \<le> closestDistance (snd entry) \<and> closestDistance (snd entry) \<le> 100000"
    and "\<forall>(k, info) \<in> set saved. 0 \<le> closestDistance info \<and> closestDistance info \<le> 100000"
  shows "\<forall>(k, info) \<in> set (merge_pilot entry saved).
           0 \<le> closestDistance info \<and> closestDistance info \<le> 100000"
proof (cases "map_of saved (fst entry)")
  case None
  with assms show ?thesis by (auto simp: merge_pilot_def dest!: in_set_update)
next
  case (Some old)
  then have "(fst entry, old) \<in> set saved" by (rule map_of_SomeD)
  with assms(2) have "0 \<le> closestDistance old \<and> closestDistance old \<le> 100000" by auto
  with Some assms show ?thesis
    by (auto simp: merge_pilot_def Let_def dest!: in_set_update)
qed

lemma merge_loop_distances:
  "\<forall>(k, info) \<in> set pd. 0 \<le> closestDistance info \<and> closestDistance info \<le> 100000 \<Longrightarrow>
   \<forall>(k, info) \<in> set saved. 0 \<le> closestDistance info \<and> closestDistance info \<le> 100000 \<Longrightarrow>
   \<forall>(k, info) \<in> set (merge_loop pd saved).
      0 \<le> closestDistance info \<and> closestDistance info \<le> 100000"
proof (induction pd arbitrary: saved)
  case Nil
  then show ?case by simp
next
  case (Cons e pd)
  from Cons.prems(1) have "0 \<le> closestDistance (snd e) \<and> closestDistance (snd e) \<le> 100000"
    by (cases e) auto
  from merge_pilot_distances[OF this Cons.prems(2)] Cons.prems(1) Cons.IH
  show ?case by simp
qed

lemma set_delete_all: "set (delete_all ks saved) \<subseteq> set saved"
proof (induction ks arbitrary: saved)
  case Nil
  then show ?case by simp
next
  case (Cons k ks)
  have "set (AList.delete k saved) \<subseteq> set saved" by (auto dest: in_set_delete)
  with Cons.IH[of "AList.delete k saved"] show ?case by auto
qed

lemma set_expire: "expire clk n saved = Inr kept \<Longrightarrow> set kept \<subseteq> set saved"
  using set_delete_all by (auto simp: expire_def split: sum.splits)

text \<open>
  C10. Every cycle keeps the invariant: if every distance in the registry file lies
  between 0 and 100000 before the cycle, so it does after it, whether the cycle ends
  normally or with an exception.
\<close>

theorem cycle_keeps_distances_in_zone:
  "distances_in_zone file \<Longrightarrow> distances_in_zone (snd (update_web_page w file))"
proof (cases "get_drone_data w")
  case (Inl e)
  assume "distances_in_zone file"
  with Inl show ?thesis by (simp add: update_web_page_def)
next
  case (Inr drone_data)
  assume inv: "distances_in_zone file"
  show ?thesis
  proof (cases "check_forbidden_coords (now w) 0 drone_data")
    case (Inl e)
    with Inr inv show ?thesis by (simp add: update_web_page_def)
  next
    case ok: (Inr r)
    obtain dnz n where r: "r = (dnz, n)" by (cases r)
    have dnz: "\<forall>(drone, (t, d)) \<in> set dnz. 0 \<le> d \<and> d \<le> 100000"
    proof clarify
      fix drone t d assume "(drone, (t, d)) \<in> set dnz"
      with ok r check_drones_entry[of "now w" 0 drone_data "[]" dnz n drone t d]
      show "0 \<le> d \<and> d \<le> 100000"
        by (auto simp: check_forbidden_coords_def distance_to_nest_nonneg)
    qed
    have step: "update_web_page w file = get_pilot_data (now w) n (pilots_endpoint w) dnz file"
      using Inr ok r by (simp add: update_web_page_def)
    show ?thesis
    proof (cases "pilot_loop (pilots_endpoint w) dnz []")
      case (Inl e)
      with step inv show ?thesis by (simp add: get_pilot_data_def)
    next
      case pd: (Inr pd)
      from pilot_loop_distances[OF pd dnz]
      have pdr: "\<forall>(k, info) \<in> set pd. 0 \<le> closestDistance info \<and> closestDistance info \<le> 100000"
        by simp
      show ?thesis
      proof (cases "file")
        case NoFile
        with step pd show ?thesis by (simp add: get_pilot_data_def distances_in_zone_def)
      next
        case Unparsable
        with step pd show ?thesis
          by (simp add: get_pilot_data_def distances_in_zone_def expire_def)
      next
        case (Json saved)
        with inv have sr: "\<forall>(k, info) \<in> set saved.
            0 \<le> closestDistance info \<and> closestDistance info \<le> 100000"
          by (auto simp: distances_in_zone_def list_all_iff)
        note m = merge_loop_distances[OF pdr sr]
        show ?thesis
        proof (cases "expire (now w) n (merge_loop pd saved)")
          case (Inl e)
          with step pd Json inv show ?thesis by (simp add: get_pilot_data_def)
        next
          case (Inr kept)
          from set_expire[OF Inr] m
          have "\<forall>(k, info) \<in> set kept. 0 \<le> closestDistance info \<and> closestDistance info \<le> 100000"
            by blast
          with step pd Json Inr show ?thesis
            by (auto simp: get_pilot_data_def distances_in_zone_def list_all_iff)
        qed
      qed
    qed
  qed
qed

theorem cycle_keeps_distances_in_zone_witness:
  "distances_in_zone (Json [(''P1'', json_object pilot_P1 (WithMicroseconds 1) 5000)]) \<and>
   distances_in_zone
     (snd (update_web_page world_two_drones
             (Json [(''P1'', json_object pilot_P1 (WithMicroseconds 1) 5000)])))"
proof -
  have h: "distances_in_zone (Json [(''P1'', json_object pilot_P1 (WithMicroseconds 1) 5000)])"
    by (simp add: distances_in_zone_def json_object_def)
  from cycle_keeps_distances_in_zone[OF h] h show ?thesis
    by simp
qed

end
